theory Spec2Isabelle
  imports Main "HOL-Library.Multiset"
begin

section \<open>The document model of editablejs: \<open>packages/model/src/element.ts\<close>\<close>

text \<open>
  An \<open>Element\<close> is a keyed tree node that owns an ordered array of child nodes and a
  style map. The class is embedded with value semantics: an object is a value of the
  datatype \<open>Node\<close>, a method that mutates \<open>this\<close> returns the updated object, and the
  plain objects that \<open>toJSON\<close> produces and the constructors consume are values of
  \<open>NodeObject\<close>. Offsets are JavaScript numbers that hold integers (\<open>int\<close>).
\<close>

subsection \<open>Keys, styles, plain objects and nodes\<close>

type_synonym NodeKey = string

datatype StyleValue = StyleString string | StyleNumber int

text \<open>\<open>ElementStyle = Record<string, string | number>\<close>; \<open>isEqual\<close> of lodash on two such
  records is equality of the maps. Style values are only stored, copied and compared.\<close>

type_synonym ElementStyle = "string \<rightharpoonup> StyleValue"

text \<open>\<open>NodeObject\<close>, \<open>ElementObject\<close> and the \<open>...Options\<close> types: every field may be
  absent (\<open>undefined\<close>). \<open>obj_text\<close> stands for the fields of a text leaf.\<close>

datatype NodeObject = NodeObject
  (obj_key: "NodeKey option")
  (obj_type: "string option")
  (obj_parent: "NodeKey option")
  (obj_text: "string option")
  (obj_size: "nat option")
  (obj_children: "NodeObject list option")

text \<open>The two classes of nodes. \<open>class Element extends Node\<close> has the fields \<open>key\<close>,
  \<open>parent\<close> and \<open>type\<close> of \<open>Node\<close> and its own \<open>style\<close> and \<open>children\<close>.\<close>

datatype Node =
    Element (getKey: NodeKey) (getParentKey: "NodeKey option") (elementType: string)
            (getStyle: ElementStyle) (getChildren: "Node list")
  | Text (getKey: NodeKey) (getParentKey: "NodeKey option") (getText: string)

text \<open>Modelled from the spec: the constants \<open>DATA_TYPE_ELEMENT\<close> and \<open>DATA_TYPE_TEXT\<close> of
  \<open>@editablejs/constants\<close>, which is not among the sources (the "element" tag and the
  text/leaf tag of the spec).\<close>

definition DATA_TYPE_ELEMENT :: string where
  "DATA_TYPE_ELEMENT = ''element''"

definition DATA_TYPE_TEXT :: string where
  "DATA_TYPE_TEXT = ''text''"

fun getType :: "Node \<Rightarrow> string" where
  "getType (Element k p t s cs) = t"
| "getType (Text k p tx) = DATA_TYPE_TEXT"

fun isElement :: "Node \<Rightarrow> bool" where
  "isElement (Element k p t s cs) = True"
| "isElement (Text k p tx) = False"

definition isElementObject :: "NodeObject \<Rightarrow> bool" where
  "isElementObject nodeObj = (obj_type nodeObj \<noteq> Some DATA_TYPE_TEXT)"

subsection \<open>Array primitives of the language\<close>

text \<open>\<open>Array.prototype.findIndex\<close>: the index of the first element that satisfies the
  predicate, \<open>-1\<close> when there is none.\<close>

fun findIndex_from :: "('a \<Rightarrow> bool) \<Rightarrow> 'a list \<Rightarrow> int \<Rightarrow> int" where
  "findIndex_from P [] i = - 1"
| "findIndex_from P (x # xs) i = (if P x then i else findIndex_from P xs (i + 1))"

definition findIndex :: "('a \<Rightarrow> bool) \<Rightarrow> 'a list \<Rightarrow> int" where
  "findIndex P xs = findIndex_from P xs 0"

text \<open>\<open>Array.prototype.splice(start, deleteCount, ...items)\<close> on integers: a negative
  \<open>start\<close> counts from the end and is floored at 0, a \<open>start\<close> beyond the length is the
  length. The result is the array after the call and the array of removed elements.\<close>

definition splice :: "'a list \<Rightarrow> int \<Rightarrow> int \<Rightarrow> 'a list \<Rightarrow> 'a list \<times> 'a list" where
  "splice xs start deleteCount items =
     (let len = int (length xs);
          actualStart = (if start < 0 then max (len + start) 0 else min start len);
          actualDeleteCount = min (max deleteCount 0) (len - actualStart)
      in (take (nat actualStart) xs @ items @ drop (nat (actualStart + actualDeleteCount)) xs,
          take (nat actualDeleteCount) (drop (nat actualStart) xs)))"

text \<open>\<open>Array.prototype.slice(start, end)\<close> on integers; \<open>None\<close> is an omitted \<open>end\<close>.\<close>

definition slice :: "'a list \<Rightarrow> int \<Rightarrow> int option \<Rightarrow> 'a list" where
  "slice xs start end_opt =
     (let len = int (length xs);
          k = (if start < 0 then max (len + start) 0 else min start len);
          final = (case end_opt of None \<Rightarrow> len
                   | Some e \<Rightarrow> if e < 0 then max (len + e) 0 else min e len)
      in take (nat (final - k)) (drop (nat k) xs))"

subsection \<open>Construction\<close>

text \<open>Modelled from the spec: the key of a new node (\<open>node.ts\<close> is not among the
  sources). A node takes the key of its options and asks the key source for a fresh
  one when the options have none. The constructors take the key source as a parameter:
  a state \<open>'g\<close> and a function that returns a key and the next state; \<open>generateKey\<close>
  below is the key source of the specification.\<close>

definition assignKey :: "('g \<Rightarrow> NodeKey \<times> 'g) \<Rightarrow> NodeKey option \<Rightarrow> 'g \<Rightarrow> NodeKey \<times> 'g" where
  "assignKey gen k g = (case k of Some key \<Rightarrow> (key, g) | None \<Rightarrow> gen g)"

text \<open>Modelled from the spec: the key-source collaborator itself (the key generator that
  \<open>node.ts\<close> calls is not among the sources), which supplies a fresh key, unique across
  the whole live document. Its state is the list of the keys in use in the live
  document; it supplies a key that is none of them (one longer than each of them) and
  records it as in use.\<close>

definition generateKey :: "NodeKey list \<Rightarrow> NodeKey \<times> NodeKey list" where
  "generateKey used =
     (let key = replicate (Suc (foldr (\<lambda>k n. max (length k) n) used 0)) CHR ''k''
      in (key, key # used))"

fun set_parent :: "NodeKey \<Rightarrow> NodeObject \<Rightarrow> NodeObject" where
  "set_parent pk (NodeObject k t p tx sz cs) = NodeObject k t (Some pk) tx sz cs"

text \<open>Modelled from the spec: the constructor of the text leaf (\<open>text.ts\<close> is not among
  the sources): key and parent as for every node, and the text of the options.\<close>

definition Text_new :: "('g \<Rightarrow> NodeKey \<times> 'g) \<Rightarrow> NodeObject \<Rightarrow> 'g \<Rightarrow> Node \<times> 'g" where
  "Text_new gen options g =
     (let (key, g1) = assignKey gen (obj_key options) g
      in (Text key (obj_parent options) (case obj_text options of None \<Rightarrow> [] | Some tx \<Rightarrow> tx), g1))"

text \<open>
  \<open>Element_new\<close> is \<open>new Element(options)\<close>: the constructor of \<open>Node\<close> (modelled from the
  spec: key, parent and type from the options) runs first, with the type defaulted to
  \<open>DATA_TYPE_ELEMENT\<close>; the field initialisers leave \<open>style\<close> empty; then the children of
  the options are stamped with the new key and built in order.

  \<open>createChildNode\<close> is \<open>Element.createChildNode\<close>, that is \<open>Node.create\<close>. Modelled from the
  spec: \<open>Node.create\<close> builds an Element when the type of the options is not the text tag
  (the test of \<open>Element.isElementObject\<close>) and a text leaf otherwise.
\<close>

function (sequential) Element_new :: "('g \<Rightarrow> NodeKey \<times> 'g) \<Rightarrow> NodeObject \<Rightarrow> 'g \<Rightarrow> Node \<times> 'g"
  and createChildNode :: "('g \<Rightarrow> NodeKey \<times> 'g) \<Rightarrow> NodeObject \<Rightarrow> 'g \<Rightarrow> Node \<times> 'g"
  and createChildNodes :: "('g \<Rightarrow> NodeKey \<times> 'g) \<Rightarrow> NodeKey \<Rightarrow> NodeObject list \<Rightarrow> 'g \<Rightarrow> Node list \<times> 'g"
where
  "Element_new gen (NodeObject k t p tx sz cs) g =
     (let (key, g1) = assignKey gen k g;
          (children, g2) = createChildNodes gen key (case cs of None \<Rightarrow> [] | Some l \<Rightarrow> l) g1
      in (Element key p (case t of None \<Rightarrow> DATA_TYPE_ELEMENT | Some ty \<Rightarrow> ty) Map.empty children, g2))"
| "createChildNode gen (NodeObject k t p tx sz cs) g =
     (if isElementObject (NodeObject k t p tx sz cs)
      then Element_new gen (NodeObject k t p tx sz cs) g
      else Text_new gen (NodeObject k t p tx sz cs) g)"
| "createChildNodes gen key [] g = ([], g)"
| "createChildNodes gen key (child # rest) g =
     (let (node, g1) = createChildNode gen (set_parent key child) g;
          (nodes, g2) = createChildNodes gen key rest g1
      in (node # nodes, g2))"
  by pat_completeness auto
termination
proof -
  have sz: "size (set_parent pk obj) = size obj" for pk obj
    by (cases obj) simp
  show ?thesis
    by (relation "measure (\<lambda>x. case x of
            Inl (gen, obj, g) \<Rightarrow> 2 * size obj
          | Inr (Inl (gen, obj, g)) \<Rightarrow> 2 * size obj + 1
          | Inr (Inr (gen, key, objs, g)) \<Rightarrow> 2 * size_list size objs + 1)")
       (auto simp: sz split: option.splits)
qed

subsection \<open>Serialisation\<close>

text \<open>
  \<open>toJSON(includeChild = true)\<close> of an Element: the attribute map of \<open>Node.toJSON\<close>
  (modelled from the spec: \<open>key\<close>, \<open>type\<close> and \<open>parent\<close>), then \<open>children\<close> and \<open>size\<close>.
  The style is not written. A child is serialised by \<open>child.toJSON()\<close>, with its own
  children. Modelled from the spec: \<open>toJSON\<close> of a text leaf gives key, type, parent and
  text.
\<close>

fun toJSON :: "bool \<Rightarrow> Node \<Rightarrow> NodeObject" where
  "toJSON includeChild (Element k p t s cs) =
     NodeObject (Some k) (Some t) p None (Some (length cs))
       (Some (if includeChild then map (toJSON True) cs else []))"
| "toJSON includeChild (Text k p tx) =
     NodeObject (Some k) (Some DATA_TYPE_TEXT) p (Some tx) None None"

subsection \<open>Queries\<close>

text \<open>\<open>setStyle(style)\<close> replaces the style map by a copy of the argument.\<close>

fun setStyle :: "ElementStyle \<Rightarrow> Node \<Rightarrow> Node" where
  "setStyle style (Element k p t s cs) = Element k p t style cs"

definition getChildrenSize :: "Node \<Rightarrow> nat" where
  "getChildrenSize this = length (getChildren this)"

definition getChildrenKeys :: "Node \<Rightarrow> NodeKey list" where
  "getChildrenKeys this = map getKey (getChildren this)"

text \<open>Modelled from the spec: \<open>isEmpty\<close> of a text leaf (it has no text).\<close>

fun isEmpty :: "Node \<Rightarrow> bool" where
  "isEmpty (Element k p t s cs) = (if length cs = 0 then True else list_all isEmpty cs)"
| "isEmpty (Text k p tx) = (tx = [])"

text \<open>\<open>contains(...keys)\<close>; \<open>contains_loop\<close> is the \<open>for ... of\<close> loop over the children
  with its two early returns. Only an Element has the method.\<close>

fun contains :: "NodeKey list \<Rightarrow> Node \<Rightarrow> bool"
  and contains_loop :: "NodeKey list \<Rightarrow> Node list \<Rightarrow> bool"
where
  "contains keys (Element k p t s cs) =
     (if length keys = 0 then False else contains_loop keys cs)"
| "contains_loop keys [] = False"
| "contains_loop keys (child # rest) =
     (if getKey child \<in> set keys then True
      else if isElement child \<and> contains keys child then True
      else contains_loop keys rest)"

subsection \<open>Equality\<close>

text \<open>Modelled from the spec: \<open>Node.compare\<close>, the comparison of the base class (content
  without the key: the type tag).\<close>

definition Node_compare :: "Node \<Rightarrow> Node \<Rightarrow> bool" where
  "Node_compare this node = (getType this = getType node)"

text \<open>\<open>Element.compare\<close>. Modelled from the spec: \<open>compare\<close> of a text leaf (the other node
  is a text leaf with the same text).\<close>

fun compare :: "Node \<Rightarrow> Node \<Rightarrow> bool" where
  "compare (Element k p t s cs) node =
     (if \<not> isElement node then False
      else if \<not> Node_compare (Element k p t s cs) node then False
      else if s \<noteq> getStyle node then False
      else (let children = getChildren node in
        if length children \<noteq> length cs then False
        else list_all (\<lambda>child.
               (let key = getKey child;
                    index = findIndex (\<lambda>c. getKey c = key) children
                in if index = - 1 then False
                   else compare child (children ! nat index))) cs))"
| "compare (Text k p tx) node =
     (\<not> isElement node \<and> Node_compare (Text k p tx) node \<and> tx = getText node)"

subsection \<open>Mutation\<close>

text \<open>\<open>Element.createChildNode(Object.assign({}, c.toJSON(), { parent: this.getKey() }))\<close>,
  the expression that \<open>appendChild\<close> and \<open>insert\<close> share.\<close>

definition copyChild :: "('g \<Rightarrow> NodeKey \<times> 'g) \<Rightarrow> NodeKey \<Rightarrow> Node \<Rightarrow> 'g \<Rightarrow> Node \<times> 'g" where
  "copyChild gen key c g = createChildNode gen (set_parent key (toJSON True c)) g"

fun copyChildren :: "('g \<Rightarrow> NodeKey \<times> 'g) \<Rightarrow> NodeKey \<Rightarrow> Node list \<Rightarrow> 'g \<Rightarrow> Node list \<times> 'g" where
  "copyChildren gen key [] g = ([], g)"
| "copyChildren gen key (c # rest) g =
     (let (node, g1) = copyChild gen key c g;
          (nodes, g2) = copyChildren gen key rest g1
      in (node # nodes, g2))"

text \<open>The methods below return \<open>this\<close> after the call and the key source after the call.\<close>

fun appendChild :: "('g \<Rightarrow> NodeKey \<times> 'g) \<Rightarrow> Node \<Rightarrow> Node \<Rightarrow> 'g \<Rightarrow> Node \<times> 'g" where
  "appendChild gen child (Element k p t s cs) g =
     (let (node, g1) = copyChild gen k child g
      in (Element k p t s (cs @ [node]), g1))"

text \<open>\<open>removeChild\<close> returns \<open>this\<close> after the call and the array that \<open>splice\<close> returned
  (the method drops it): the removed node as the call leaves it.\<close>

fun removeChild :: "NodeKey \<Rightarrow> Node \<Rightarrow> Node \<times> Node list" where
  "removeChild key (Element k p t s cs) =
     (let index = findIndex (\<lambda>child. getKey child = key) cs
      in if index < 0 then (Element k p t s cs, [])
         else (let (cs', removed) = splice cs index 1 []
               in (Element k p t s cs', removed)))"

text \<open>\<open>insert(index, ...child)\<close>, named \<open>insert_el\<close> here (\<open>insert\<close> is a name of the
  library): the copies are built in order, then spliced in at \<open>index\<close>.\<close>

fun insert_el :: "('g \<Rightarrow> NodeKey \<times> 'g) \<Rightarrow> int \<Rightarrow> Node list \<Rightarrow> Node \<Rightarrow> 'g \<Rightarrow> Node \<times> 'g" where
  "insert_el gen index child (Element k p t s cs) g =
     (let (nodes, g1) = copyChildren gen k child g
      in (Element k p t s (fst (splice cs index 0 nodes)), g1))"

subsection \<open>Split\<close>

fun set_key :: "NodeKey option \<Rightarrow> NodeObject \<Rightarrow> NodeObject" where
  "set_key key (NodeObject k t p tx sz cs) = NodeObject key t p tx sz cs"

text \<open>\<open>xs.forEach(child => clone.appendChild(child))\<close>.\<close>

fun appendChildren :: "('g \<Rightarrow> NodeKey \<times> 'g) \<Rightarrow> Node list \<Rightarrow> Node \<Rightarrow> 'g \<Rightarrow> Node \<times> 'g" where
  "appendChildren gen [] clone g = (clone, g)"
| "appendChildren gen (child # rest) clone g =
     (let (clone1, g1) = appendChild gen child clone g
      in appendChildren gen rest clone1 g1)"

text \<open>\<open>split(offset)\<close>, named \<open>split_el\<close> here, returns the array \<open>[cloneLeft, cloneRight]\<close>, \<open>this\<close> after the call
  (no statement of the method assigns to a field of \<open>this\<close>, and \<open>toJSON\<close> and \<open>slice\<close>
  build new objects) and the key source after the call.\<close>

fun split_el :: "('g \<Rightarrow> NodeKey \<times> 'g) \<Rightarrow> int \<Rightarrow> Node \<Rightarrow> 'g \<Rightarrow> (Node \<times> Node) \<times> Node \<times> 'g" where
  "split_el gen offset (Element k p t s cs) g =
     (let this = Element k p t s cs;
          size = int (getChildrenSize this);
          offset = (if offset < 0 then 0 else offset);
          offset = (if offset > size then size else offset);
          left = slice cs 0 (Some offset);
          right = slice cs offset None;
          json = toJSON False this;
          (cloneLeft, g1) = Element_new gen json g;
          (cloneLeft, g2) = appendChildren gen left cloneLeft g1;
          (cloneRight, g3) = Element_new gen (set_key None json) g2;
          (cloneRight, g4) = appendChildren gen right cloneRight g3
      in ((cloneLeft, cloneRight), this, g4))"

subsection \<open>Notions of the specification\<close>

text \<open>The direct and transitive children of a node, in document order (the
  "descendants" of the specification; not a function of the source).\<close>

fun descendants :: "Node \<Rightarrow> Node list" where
  "descendants (Element k p t s cs) = concat (map (\<lambda>c. c # descendants c) cs)"
| "descendants (Text k p tx) = []"

text \<open>An offset clamped to the range from 0 to the number of children.\<close>

definition clamp_offset :: "int \<Rightarrow> nat \<Rightarrow> nat" where
  "clamp_offset offset n = nat (max 0 (min offset (int n)))"

text \<open>The keys of the children of every Element of the tree are pairwise different.\<close>

fun distinct_child_keys :: "Node \<Rightarrow> bool" where
  "distinct_child_keys (Element k p t s cs) = (distinct (map getKey cs) \<and> list_all distinct_child_keys cs)"
| "distinct_child_keys (Text k p tx) = True"

text \<open>Every Element of the tree has the empty style map.\<close>

fun empty_styles :: "Node \<Rightarrow> bool" where
  "empty_styles (Element k p t s cs) = (s = Map.empty \<and> list_all empty_styles cs)"
| "empty_styles (Text k p tx) = True"

text \<open>A node as \<open>createChildNode\<close> builds it: a text leaf, or an Element whose type is
  not the text tag and whose children are such nodes. Every child of an Element is
  built by \<open>createChildNode\<close> (in the constructor, \<open>appendChild\<close> and \<open>insert\<close>).\<close>

fun dispatched :: "Node \<Rightarrow> bool" where
  "dispatched (Element k p t s cs) = (t \<noteq> DATA_TYPE_TEXT \<and> list_all dispatched cs)"
| "dispatched (Text k p tx) = True"

section \<open>Properties\<close>

subsection \<open>Array primitives\<close>

lemma findIndex_from_takeWhile:
  "findIndex_from P xs i =
     (if \<exists>x\<in>set xs. P x then i + int (length (takeWhile (\<lambda>x. \<not> P x) xs)) else - 1)"
  by (induction xs arbitrary: i) auto

lemma findIndex_takeWhile:
  "findIndex P xs = (if \<exists>x\<in>set xs. P x then int (length (takeWhile (\<lambda>x. \<not> P x) xs)) else - 1)"
  by (simp add: findIndex_def findIndex_from_takeWhile)

lemma length_takeWhile_lt: "(\<exists>x\<in>set xs. \<not> P x) \<Longrightarrow> length (takeWhile P xs) < length xs"
  by (induction xs) auto

lemma takeWhile_before: "j < length (takeWhile P xs) \<Longrightarrow> P (xs ! j)"
proof -
  assume j: "j < length (takeWhile P xs)"
  then have "takeWhile P xs ! j \<in> set (takeWhile P xs)" by simp
  then have "P (takeWhile P xs ! j)" by (rule set_takeWhileD [THEN conjunct2])
  then show ?thesis using j by (simp add: takeWhile_nth)
qed

subsection \<open>Copies of nodes need no fresh key\<close>

lemma assignKey_Some [simp]: "assignKey gen (Some k) g = (k, g)"
  by (simp add: assignKey_def)

lemma assignKey_None [simp]: "assignKey gen None g = gen g"
  by (simp add: assignKey_def)

lemma createChildNodes_map:
  "(\<And>c g. c \<in> set objs \<Longrightarrow> snd (createChildNode gen (set_parent key c) g) = g) \<Longrightarrow>
   createChildNodes gen key objs g = (map (\<lambda>c. fst (createChildNode gen (set_parent key c) g)) objs, g)"
proof (induction objs arbitrary: g)
  case Nil
  then show ?case by simp
next
  case (Cons c objs)
  have "snd (createChildNode gen (set_parent key c) g) = g"
    using Cons.prems by simp
  then obtain n where n: "createChildNode gen (set_parent key c) g = (n, g)"
    by (metis prod.collapse)
  have "createChildNodes gen key objs g = (map (\<lambda>c. fst (createChildNode gen (set_parent key c) g)) objs, g)"
    using Cons.IH Cons.prems by simp
  then show ?case using n by simp
qed

text \<open>A serialised node carries its key, at every depth, so that building it again
  never asks the key source.\<close>

lemma copyChild_state: "snd (copyChild gen key c g) = g"
proof (induction c arbitrary: key g)
  case (Element k p t s cs)
  have "createChildNodes gen k (map (toJSON True) cs) g
        = (map (\<lambda>c. fst (createChildNode gen (set_parent k c) g)) (map (toJSON True) cs), g)"
    apply (rule createChildNodes_map)
    using Element.IH by (auto simp: copyChild_def)
  then show ?case
    by (simp add: copyChild_def Text_new_def)
next
  case (Text k p tx)
  then show ?case by (simp add: copyChild_def isElementObject_def Text_new_def)
qed

lemma copyChild_key: "getKey (fst (copyChild gen key c g)) = getKey c"
  by (cases c) (simp_all add: copyChild_def Text_new_def isElementObject_def split_beta)


lemma copyChildren_map:
  "copyChildren gen key cs g = (map (\<lambda>c. fst (copyChild gen key c g)) cs, g)"
proof (induction cs)
  case Nil
  show ?case by simp
next
  case (Cons c cs)
  obtain n where n: "copyChild gen key c g = (n, g)"
    by (metis copyChild_state prod.collapse)
  show ?case using n Cons.IH by simp
qed

subsection \<open>Serialisation\<close>

text \<open>
  C9. For every Element, \<open>toJSON(false)\<close> gives an object whose \<open>children\<close> is the empty
  list while \<open>size\<close> is the number of children of the Element; \<open>toJSON(true)\<close> gives the
  serialised children (each with its own children) and the same \<open>size\<close>.
\<close>

theorem toJSON_children_and_size:
  "obj_children (toJSON False (Element k p t s cs)) = Some []
   \<and> obj_size (toJSON False (Element k p t s cs)) = Some (getChildrenSize (Element k p t s cs))
   \<and> obj_children (toJSON True (Element k p t s cs)) = Some (map (toJSON True) cs)
   \<and> obj_size (toJSON True (Element k p t s cs)) = Some (getChildrenSize (Element k p t s cs))"
  by (simp add: getChildrenSize_def)

text \<open>An Element with one child: \<open>toJSON(false)\<close> has no children and \<open>size\<close> 1.\<close>

theorem toJSON_children_and_size_witness:
  "obj_children (toJSON False (Element ''e'' None ''element'' Map.empty [Text ''a'' (Some ''e'') ''x''])) = Some []
   \<and> obj_size (toJSON False (Element ''e'' None ''element'' Map.empty [Text ''a'' (Some ''e'') ''x''])) = Some 1
   \<and> obj_children (toJSON True (Element ''e'' None ''element'' Map.empty [Text ''a'' (Some ''e'') ''x'']))
       = Some [NodeObject (Some ''a'') (Some ''text'') (Some ''e'') (Some ''x'') None None]"
  using toJSON_children_and_size [of "''e''" None "''element''" Map.empty "[Text ''a'' (Some ''e'') ''x'']"]
  by (simp add: getChildrenSize_def DATA_TYPE_TEXT_def)

subsection \<open>Emptiness\<close>

text \<open>
  C8. \<open>isEmpty()\<close> of an Element is true exactly when the Element has no children or
  every child is itself empty, recursively; an Element with children can be empty.
\<close>

theorem isEmpty_recursive:
  "isEmpty (Element k p t s cs) = (cs = [] \<or> (\<forall>c\<in>set cs. isEmpty c))"
  by (auto simp: list_all_iff)

text \<open>An Element whose only child is an Element without children is empty; an Element
  that holds a text leaf with text is not.\<close>

theorem isEmpty_recursive_witness:
  "isEmpty (Element ''e'' None ''element'' Map.empty [Element ''a'' (Some ''e'') ''element'' Map.empty []])
   \<and> \<not> isEmpty (Element ''e'' None ''element'' Map.empty [Text ''a'' (Some ''e'') ''x''])"
  using isEmpty_recursive [of "''e''" None "''element''" Map.empty "[Element ''a'' (Some ''e'') ''element'' Map.empty []]"]
    isEmpty_recursive [of "''e''" None "''element''" Map.empty "[Text ''a'' (Some ''e'') ''x'']"]
  by simp

subsection \<open>Search\<close>

lemma contains_loop_iff:
  "(\<And>c. c \<in> set cs \<Longrightarrow> isElement c \<Longrightarrow> contains keys c = (\<exists>d\<in>set (descendants c). getKey d \<in> set keys)) \<Longrightarrow>
   contains_loop keys cs = (\<exists>c\<in>set cs. getKey c \<in> set keys \<or> (\<exists>d\<in>set (descendants c). getKey d \<in> set keys))"
proof (induction cs)
  case Nil
  show ?case by simp
next
  case (Cons c cs)
  have ih: "contains_loop keys cs = (\<exists>c\<in>set cs. getKey c \<in> set keys \<or> (\<exists>d\<in>set (descendants c). getKey d \<in> set keys))"
    using Cons by simp
  have leaf: "\<not> isElement c \<Longrightarrow> descendants c = []"
    by (cases c) simp_all
  have c: "isElement c \<Longrightarrow> contains keys c = (\<exists>d\<in>set (descendants c). getKey d \<in> set keys)"
    using Cons.prems by simp
  show ?case
    using ih c leaf by auto
qed

lemma contains_nonempty:
  "keys \<noteq> [] \<Longrightarrow> isElement n \<Longrightarrow> contains keys n = (\<exists>d\<in>set (descendants n). getKey d \<in> set keys)"
proof (induction n)
  case (Element k p t s cs)
  have "contains_loop keys cs = (\<exists>c\<in>set cs. getKey c \<in> set keys \<or> (\<exists>d\<in>set (descendants c). getKey d \<in> set keys))"
    by (rule contains_loop_iff) (use Element in auto)
  then show ?case using Element.prems by auto
next
  case (Text k p tx)
  then show ?case by simp
qed

text \<open>
  C6. \<open>contains()\<close> with no key is false; with at least one key it is true exactly when
  some direct or transitive child of the Element has a key among the given keys.
\<close>

theorem contains_descendant_key:
  "contains [] (Element k p t s cs) = False
   \<and> (keys \<noteq> [] \<longrightarrow>
        contains keys (Element k p t s cs)
          = (\<exists>d\<in>set (descendants (Element k p t s cs)). getKey d \<in> set keys))"
  using contains_nonempty [of keys "Element k p t s cs"] by simp

text \<open>A key of a grandchild is found; a key that no descendant has is not.\<close>

theorem contains_descendant_key_witness:
  "contains [''c'']
     (Element ''e'' None ''element'' Map.empty
        [Element ''a'' (Some ''e'') ''element'' Map.empty [Text ''c'' (Some ''a'') ''x'']])
   \<and> \<not> contains [''z'']
     (Element ''e'' None ''element'' Map.empty
        [Element ''a'' (Some ''e'') ''element'' Map.empty [Text ''c'' (Some ''a'') ''x'']])"
  using contains_descendant_key [of "''e''" None "''element''" Map.empty
      "[Element ''a'' (Some ''e'') ''element'' Map.empty [Text ''c'' (Some ''a'') ''x'']]" "[''c'']"]
    contains_descendant_key [of "''e''" None "''element''" Map.empty
      "[Element ''a'' (Some ''e'') ''element'' Map.empty [Text ''c'' (Some ''a'') ''x'']]" "[''z'']"]
  by simp

subsection \<open>Removal\<close>

lemma removeChild_absent:
  "\<forall>c\<in>set cs. getKey c \<noteq> key \<Longrightarrow> removeChild key (Element k p t s cs) = (Element k p t s cs, [])"
  by (simp add: findIndex_takeWhile)

lemma removeChild_present:
  assumes "\<exists>c\<in>set cs. getKey c = key"
  defines "i \<equiv> length (takeWhile (\<lambda>c. getKey c \<noteq> key) cs)"
  shows "i < length cs" and "getKey (cs ! i) = key" and "\<forall>j<i. getKey (cs ! j) \<noteq> key"
    and "removeChild key (Element k p t s cs) = (Element k p t s (take i cs @ drop (Suc i) cs), [cs ! i])"
proof -
  show lt: "i < length cs"
    unfolding i_def using assms(1) by (intro length_takeWhile_lt) simp
  show "getKey (cs ! i) = key"
    unfolding i_def using nth_length_takeWhile [of "\<lambda>c. getKey c \<noteq> key" cs] lt i_def by simp
  show "\<forall>j<i. getKey (cs ! j) \<noteq> key"
    unfolding i_def using takeWhile_before [of _ "\<lambda>c. getKey c \<noteq> key" cs] by blast
  have idx: "findIndex (\<lambda>c. getKey c = key) cs = int i"
    using assms(1) by (simp add: findIndex_takeWhile i_def)
  have "take 1 (drop i cs) = [cs ! i]"
    using lt by (simp add: Cons_nth_drop_Suc [symmetric])
  moreover have "nat (int i + 1) = Suc i" by simp
  ultimately show "removeChild key (Element k p t s cs) = (Element k p t s (take i cs @ drop (Suc i) cs), [cs ! i])"
    using lt by (simp add: idx splice_def Let_def)
qed

text \<open>
  C5. \<open>removeChild(key)\<close>: when no child has the key, the Element is unchanged; when some
  child has it, the first such child (at index \<open>i\<close>) leaves the children, the children
  before and after it keep their order, and the removed node is the node that was
  stored, with its parent key as it was.
\<close>

theorem removeChild_by_key:
  "((\<forall>c\<in>set cs. getKey c \<noteq> key) \<longrightarrow>
       removeChild key (Element k p t s cs) = (Element k p t s cs, []))
   \<and> ((\<exists>c\<in>set cs. getKey c = key) \<longrightarrow>
       (\<exists>i<length cs. getKey (cs ! i) = key \<and> (\<forall>j<i. getKey (cs ! j) \<noteq> key)
          \<and> removeChild key (Element k p t s cs)
              = (Element k p t s (take i cs @ drop (Suc i) cs), [cs ! i])))"
  using removeChild_absent [of cs key k p t s] removeChild_present [of cs key]
  by blast

text \<open>The scenario of the specification: children A, B, C; removing \<open>b\<close> leaves A, C and
  the removed B still names its parent; removing \<open>z\<close> changes nothing.\<close>

theorem removeChild_by_key_witness:
  "(\<exists>c\<in>set [Text ''a'' (Some ''e'') ''A'', Text ''b'' (Some ''e'') ''B'', Text ''c'' (Some ''e'') ''C'']. getKey c = ''b'')
   \<and> \<not> (\<exists>c\<in>set [Text ''a'' (Some ''e'') ''A'', Text ''b'' (Some ''e'') ''B'', Text ''c'' (Some ''e'') ''C'']. getKey c = ''z'')
   \<and> removeChild ''b'' (Element ''e'' None ''element'' Map.empty
        [Text ''a'' (Some ''e'') ''A'', Text ''b'' (Some ''e'') ''B'', Text ''c'' (Some ''e'') ''C''])
      = (Element ''e'' None ''element'' Map.empty
           [Text ''a'' (Some ''e'') ''A'', Text ''c'' (Some ''e'') ''C''],
         [Text ''b'' (Some ''e'') ''B''])
   \<and> removeChild ''z'' (Element ''e'' None ''element'' Map.empty
        [Text ''a'' (Some ''e'') ''A'', Text ''b'' (Some ''e'') ''B'', Text ''c'' (Some ''e'') ''C''])
      = (Element ''e'' None ''element'' Map.empty
           [Text ''a'' (Some ''e'') ''A'', Text ''b'' (Some ''e'') ''B'', Text ''c'' (Some ''e'') ''C''], [])"
  using removeChild_by_key [of "[Text ''a'' (Some ''e'') ''A'', Text ''b'' (Some ''e'') ''B'', Text ''c'' (Some ''e'') ''C'']"
      "''z''" "''e''" None "''element''" Map.empty]
    removeChild_by_key [of "[Text ''a'' (Some ''e'') ''A'', Text ''b'' (Some ''e'') ''B'', Text ''c'' (Some ''e'') ''C'']"
      "''b''" "''e''" None "''element''" Map.empty]
  by (simp add: findIndex_def splice_def)

subsection \<open>Insertion\<close>



text \<open>
  C10. \<open>insert\<close> passes its offset to \<open>splice\<close>: a negative offset counts from the end of the
  children (the number of children plus the offset, not below 0), and an offset beyond
  the number of children appends.
\<close>

theorem insert_splice_offsets:
  "(index < 0 \<longrightarrow>
      insert_el gen index xs (Element k p t s cs) g
        = (Element k p t s
             (take (nat (max (int (length cs) + index) 0)) cs
              @ map (\<lambda>c. fst (copyChild gen k c g)) xs
              @ drop (nat (max (int (length cs) + index) 0)) cs), g))
   \<and> (int (length cs) < index \<longrightarrow>
      insert_el gen index xs (Element k p t s cs) g
        = (Element k p t s (cs @ map (\<lambda>c. fst (copyChild gen k c g)) xs), g))"
  by (simp add: copyChildren_map splice_def Let_def)

text \<open>On children A, B, C, \<open>insert(-1, X)\<close> gives A, B, X, C (not X, A, B, C) and
  \<open>insert(7, X)\<close> gives A, B, C, X.\<close>

theorem insert_splice_offsets_witness:
  "(- 1::int) < 0 \<and> int (length [Text ''a'' (Some ''e'') ''A'', Text ''b'' (Some ''e'') ''B'', Text ''c'' (Some ''e'') ''C'']) < 7
   \<and> insert_el (\<lambda>n::nat. (''fresh'', Suc n)) (- 1) [Text ''x'' None ''X'']
      (Element ''e'' None ''element'' Map.empty
         [Text ''a'' (Some ''e'') ''A'', Text ''b'' (Some ''e'') ''B'', Text ''c'' (Some ''e'') ''C'']) 0
     = (Element ''e'' None ''element'' Map.empty
         [Text ''a'' (Some ''e'') ''A'', Text ''b'' (Some ''e'') ''B'', Text ''x'' (Some ''e'') ''X'',
          Text ''c'' (Some ''e'') ''C''], 0)
   \<and> insert_el (\<lambda>n::nat. (''fresh'', Suc n)) 7 [Text ''x'' None ''X'']
      (Element ''e'' None ''element'' Map.empty
         [Text ''a'' (Some ''e'') ''A'', Text ''b'' (Some ''e'') ''B'', Text ''c'' (Some ''e'') ''C'']) 0
     = (Element ''e'' None ''element'' Map.empty
         [Text ''a'' (Some ''e'') ''A'', Text ''b'' (Some ''e'') ''B'', Text ''c'' (Some ''e'') ''C'',
          Text ''x'' (Some ''e'') ''X''], 0)"
  using insert_splice_offsets [of "- 1" "\<lambda>n::nat. (''fresh'', Suc n)" "[Text ''x'' None ''X'']"
      "''e''" None "''element''" Map.empty
      "[Text ''a'' (Some ''e'') ''A'', Text ''b'' (Some ''e'') ''B'', Text ''c'' (Some ''e'') ''C'']" 0]
    insert_splice_offsets [of 7 "\<lambda>n::nat. (''fresh'', Suc n)" "[Text ''x'' None ''X'']"
      "''e''" None "''element''" Map.empty
      "[Text ''a'' (Some ''e'') ''A'', Text ''b'' (Some ''e'') ''B'', Text ''c'' (Some ''e'') ''C'']" 0]
  by (simp add: copyChild_def isElementObject_def Text_new_def DATA_TYPE_TEXT_def)

subsection \<open>Split\<close>

lemma appendChildren_eq:
  "appendChildren gen xs (Element k p t s cs) g
     = (Element k p t s (cs @ map (\<lambda>c. fst (copyChild gen k c g)) xs), g)"
proof (induction xs arbitrary: cs)
  case Nil
  show ?case by simp
next
  case (Cons x xs)
  obtain n where n: "copyChild gen k x g = (n, g)"
    by (metis copyChild_state prod.collapse)
  show ?case using n Cons.IH [of "cs @ [n]"] by simp
qed

lemma slice_take: "0 \<le> off \<Longrightarrow> off \<le> int (length xs) \<Longrightarrow> slice xs 0 (Some off) = take (nat off) xs"
  by (simp add: slice_def Let_def min_def)

lemma slice_drop: "0 \<le> off \<Longrightarrow> off \<le> int (length xs) \<Longrightarrow> slice xs off None = drop (nat off) xs"
  by (simp add: slice_def Let_def min_def)

lemma split_el_eq:
  "split_el gen offset (Element k p t s cs) g =
     ((Element k p t Map.empty
         (map (\<lambda>c. fst (copyChild gen k c g)) (take (clamp_offset offset (length cs)) cs)),
       Element (fst (gen g)) p t Map.empty
         (map (\<lambda>c. fst (copyChild gen (fst (gen g)) c (snd (gen g)))) (drop (clamp_offset offset (length cs)) cs))),
      Element k p t s cs, snd (gen g))"
  by (auto simp: Let_def getChildrenSize_def appendChildren_eq split_beta slice_take slice_drop
      clamp_offset_def min_def max_def)

text \<open>
  C1. For every Element and every offset from 0 to the number of its children,
  \<open>split(offset)\<close> returns two Elements whose numbers of children add up to the number of
  children of the Element, and the keys of the children of the left one followed by the
  keys of the children of the right one are the keys of the children of the Element.
\<close>

theorem split_partitions_children:
  assumes "0 \<le> offset" and "offset \<le> int (getChildrenSize (Element k p t s cs))"
    and "split_el gen offset (Element k p t s cs) g = ((left, right), this', g')"
  shows "getChildrenSize left + getChildrenSize right = getChildrenSize (Element k p t s cs)
         \<and> getChildrenKeys left @ getChildrenKeys right = getChildrenKeys (Element k p t s cs)"
proof -
  let ?n = "clamp_offset offset (length cs)"
  have l: "left = Element k p t Map.empty (map (\<lambda>c. fst (copyChild gen k c g)) (take ?n cs))"
    and r: "right = Element (fst (gen g)) p t Map.empty
              (map (\<lambda>c. fst (copyChild gen (fst (gen g)) c (snd (gen g)))) (drop ?n cs))"
    using assms(3) unfolding split_el_eq by auto
  have "getChildrenKeys left = take ?n (map getKey cs)"
    by (simp add: l getChildrenKeys_def copyChild_key take_map)
  moreover have "getChildrenKeys right = drop ?n (map getKey cs)"
    by (simp add: r getChildrenKeys_def copyChild_key drop_map)
  moreover have "getChildrenSize left + getChildrenSize right = length cs"
    by (simp add: l r getChildrenSize_def)
  ultimately show ?thesis
    by (simp add: getChildrenSize_def getChildrenKeys_def)
qed

text \<open>\<open>split(1)\<close> on children with keys \<open>a\<close>, \<open>b\<close>, \<open>c\<close>: one child left, two right, the keys
  in order.\<close>

theorem split_partitions_children_witness:
  "getChildrenSize (Element ''e'' None ''element'' Map.empty [Text ''a'' (Some ''e'') ''A''])
     + getChildrenSize (Element ''fresh'' None ''element'' Map.empty
         [Text ''b'' (Some ''fresh'') ''B'', Text ''c'' (Some ''fresh'') ''C'']) = 3
   \<and> getChildrenKeys (Element ''e'' None ''element'' Map.empty [Text ''a'' (Some ''e'') ''A''])
     @ getChildrenKeys (Element ''fresh'' None ''element'' Map.empty
         [Text ''b'' (Some ''fresh'') ''B'', Text ''c'' (Some ''fresh'') ''C'']) = [''a'', ''b'', ''c'']"
proof -
  let ?E = "Element ''e'' None ''element'' Map.empty
              [Text ''a'' (Some ''e'') ''A'', Text ''b'' (Some ''e'') ''B'', Text ''c'' (Some ''e'') ''C'']"
  let ?gen = "\<lambda>n::nat. (''fresh'', Suc n)"
  have range: "(0::int) \<le> 1" "(1::int) \<le> int (getChildrenSize ?E)"
    by (simp_all add: getChildrenSize_def)
  have run: "split_el ?gen 1 ?E 0 =
      ((Element ''e'' None ''element'' Map.empty [Text ''a'' (Some ''e'') ''A''],
        Element ''fresh'' None ''element'' Map.empty
          [Text ''b'' (Some ''fresh'') ''B'', Text ''c'' (Some ''fresh'') ''C'']), ?E, 1)"
    unfolding split_el_eq
    by (simp add: clamp_offset_def copyChild_def isElementObject_def Text_new_def DATA_TYPE_TEXT_def)
  show ?thesis
    using split_partitions_children [OF range run]
    by (simp add: getChildrenSize_def getChildrenKeys_def)
qed



lemma generateKey_records:
  "set (snd (generateKey used)) = insert (fst (generateKey used)) (set used)"
  by (simp add: generateKey_def Let_def)

lemma Element_new_generated_in_use:
  "getKey (fst (Element_new generateKey (NodeObject None t p tx sz None) used))
     \<in> set (snd (Element_new generateKey (NodeObject None t p tx sz None) used))"
  by (simp add: split_beta generateKey_records)




subsection \<open>Equality\<close>

lemma findIndex_absent: "(findIndex P xs = - 1) = (\<forall>x\<in>set xs. \<not> P x)"
  by (simp add: findIndex_takeWhile)

lemma findIndex_found:
  assumes "findIndex P xs \<noteq> - 1"
  shows "nat (findIndex P xs) < length xs" and "P (xs ! nat (findIndex P xs))"
proof -
  have ex: "\<exists>x\<in>set xs. P x"
    using assms by (simp add: findIndex_absent)
  then have idx: "findIndex P xs = int (length (takeWhile (\<lambda>x. \<not> P x) xs))"
    by (simp add: findIndex_takeWhile)
  show lt: "nat (findIndex P xs) < length xs"
    using ex by (simp add: idx length_takeWhile_lt)
  show "P (xs ! nat (findIndex P xs))"
    using nth_length_takeWhile [of "\<lambda>x. \<not> P x" xs] lt by (simp add: idx)
qed

lemma findIndex_distinct_key:
  assumes "distinct (map f xs)" and "x \<in> set xs"
  shows "findIndex (\<lambda>y. f y = f x) xs \<noteq> - 1" and "xs ! nat (findIndex (\<lambda>y. f y = f x) xs) = x"
proof -
  show ne: "findIndex (\<lambda>y. f y = f x) xs \<noteq> - 1"
    using assms(2) by (auto simp: findIndex_absent)
  let ?i = "nat (findIndex (\<lambda>y. f y = f x) xs)"
  have "?i < length xs" and fx: "f (xs ! ?i) = f x"
    using findIndex_found [OF ne] by simp_all
  then have "xs ! ?i \<in> set xs" by simp
  moreover have "inj_on f (set xs)"
    using assms(1) by (simp add: distinct_map)
  ultimately show "xs ! ?i = x"
    using fx assms(2) by (auto dest: inj_onD)
qed

lemma compare_Element:
  "compare (Element k p t s cs) (Element k' p' t' s' cs') =
     (t = t' \<and> s = s' \<and> length cs' = length cs \<and>
      (\<forall>child\<in>set cs. findIndex (\<lambda>c. getKey c = getKey child) cs' \<noteq> - 1
          \<and> compare child (cs' ! nat (findIndex (\<lambda>c. getKey c = getKey child) cs'))))"
  by (auto simp: Node_compare_def Let_def list_all_iff)

lemma compare_imp_matching:
  assumes "compare (Element k p t s cs) (Element k' p' t' s' cs')" and "child \<in> set cs"
  shows "\<exists>c\<in>set cs'. getKey c = getKey child \<and> compare child c"
proof -
  let ?i = "findIndex (\<lambda>c. getKey c = getKey child) cs'"
  have ne: "?i \<noteq> - 1" and cmp: "compare child (cs' ! nat ?i)"
    using assms unfolding compare_Element by blast+
  have "nat ?i < length cs'" and "getKey (cs' ! nat ?i) = getKey child"
    using findIndex_found [OF ne] by simp_all
  then show ?thesis using cmp by (metis nth_mem)
qed

lemma matching_imp_distinct:
  assumes "distinct (map getKey cs)" and "length cs = length cs'"
    and "\<forall>child\<in>set cs. \<exists>c\<in>set cs'. getKey c = getKey (child::Node)"
  shows "distinct (map getKey (cs'::Node list))"
proof -
  have sub: "set (map getKey cs) \<subseteq> set (map getKey cs')"
  proof
    fix x assume "x \<in> set (map getKey cs)"
    then obtain child where "child \<in> set cs" "x = getKey child" by auto
    then obtain c where "c \<in> set cs'" "getKey c = x" using assms(3) by blast
    then show "x \<in> set (map getKey cs')" by (metis image_eqI set_map)
  qed
  have "length cs = card (set (map getKey cs))"
    using distinct_card [OF assms(1)] by simp
  also have "\<dots> \<le> card (set (map getKey cs'))"
    using sub by (simp add: card_mono)
  finally have "length (map getKey cs') \<le> card (set (map getKey cs'))"
    using assms(2) by simp
  moreover have "card (set (map getKey cs')) \<le> length (map getKey cs')"
    by (rule card_length)
  ultimately show ?thesis
    by (intro card_distinct) simp
qed

lemma matching_imp_compare:
  assumes "t = t'" and "s = s'" and "length cs = length cs'"
    and "distinct (map getKey cs')"
    and "\<forall>child\<in>set cs. \<exists>c\<in>set cs'. getKey c = getKey child \<and> compare child c"
  shows "compare (Element k p t s cs) (Element k' p' t' s' cs')"
proof -
  have *: "findIndex (\<lambda>c. getKey c = getKey child) cs' \<noteq> - 1
        \<and> compare child (cs' ! nat (findIndex (\<lambda>c. getKey c = getKey child) cs'))"
    if "child \<in> set cs" for child
  proof -
    have "\<exists>c\<in>set cs'. getKey c = getKey child \<and> compare child c"
      using assms(5) that by (rule bspec)
    then obtain c where c: "c \<in> set cs'" "getKey c = getKey child" "compare child c"
      by (elim bexE conjE)
    have a: "findIndex (\<lambda>y. getKey y = getKey child) cs' \<noteq> - 1"
      using findIndex_distinct_key(1) [OF assms(4) c(1)] unfolding c(2) .
    have b: "cs' ! nat (findIndex (\<lambda>y. getKey y = getKey child) cs') = c"
      using findIndex_distinct_key(2) [OF assms(4) c(1)] unfolding c(2) .
    show ?thesis
      apply (rule conjI)
       apply (rule a)
      apply (subst b)
      apply (rule c(3))
      done
  qed
  show ?thesis
    apply (subst compare_Element)
    apply (intro conjI ballI)
    apply (rule assms(1))
    apply (rule assms(2))
    apply (rule assms(3) [symmetric])
     apply (erule * [THEN conjunct1])
     apply (erule * [THEN conjunct2])
    done
qed

text \<open>
  C3, amended. For two Elements that pass the comparison of \<open>Node\<close>, have equal style maps
  and equally many children, and where the children of at least one of the two have
  pairwise different keys: \<open>compare\<close> is true exactly when every child of \<open>this\<close> has a
  child of the other Element with the same key that it compares equal to. In
  particular, when the children of the other Element are a rearrangement of nodes that
  match the children of \<open>this\<close> one by one (same key, compare equal), \<open>compare\<close> is true.
\<close>

theorem compare_matches_by_key:
  assumes "Node_compare (Element k p t s cs) (Element k' p' t' s' cs')"
    and "s = s'" and "length cs = length cs'"
    and "distinct (map getKey cs) \<or> distinct (map getKey cs')"
  shows "(compare (Element k p t s cs) (Element k' p' t' s' cs')
           \<longleftrightarrow> (\<forall>child\<in>set cs. \<exists>c\<in>set cs'. getKey c = getKey child \<and> compare child c))
         \<and> (list_all2 (\<lambda>a b. getKey a = getKey b \<and> compare a b) cs cs0 \<and> mset cs' = mset cs0
              \<longrightarrow> compare (Element k p t s cs) (Element k' p' t' s' cs'))"
proof -
  have t: "t = t'" using assms(1) by (simp add: Node_compare_def)
  have conv: "compare (Element k p t s cs) (Element k' p' t' s' cs')"
    if m: "\<forall>child\<in>set cs. \<exists>c\<in>set cs'. getKey c = getKey child \<and> compare child c"
  proof -
    have "distinct (map getKey cs')"
      using assms(4) matching_imp_distinct [OF _ assms(3)] m by blast
    then show ?thesis
      by (rule matching_imp_compare [OF t assms(2,3) _ m])
  qed
  have perm: "\<forall>child\<in>set cs. \<exists>c\<in>set cs'. getKey c = getKey child \<and> compare child c"
    if l: "list_all2 (\<lambda>a b. getKey a = getKey b \<and> compare a b) cs cs0" and ms: "mset cs' = mset cs0"
  proof
    fix child assume "child \<in> set cs"
    then obtain i where i: "i < length cs" "cs ! i = child"
      by (auto simp: in_set_conv_nth)
    have len: "length cs = length cs0"
      using l by (rule list_all2_lengthD)
    have "getKey (cs ! i) = getKey (cs0 ! i) \<and> compare (cs ! i) (cs0 ! i)"
      using list_all2_nthD [OF l i(1)] .
    moreover have "cs0 ! i \<in> set cs0"
      using i(1) len by simp
    moreover have "set cs0 = set cs'"
      using ms by (metis mset_eq_setD)
    ultimately show "\<exists>c\<in>set cs'. getKey c = getKey child \<and> compare child c"
      using i(2) by metis
  qed
  have fwd: "compare (Element k p t s cs) (Element k' p' t' s' cs') \<Longrightarrow>
      \<forall>child\<in>set cs. \<exists>c\<in>set cs'. getKey c = getKey child \<and> compare child c"
    using compare_imp_matching [of k p t s cs k' p' t' s' cs'] by blast
  have "compare (Element k p t s cs) (Element k' p' t' s' cs')
           \<longleftrightarrow> (\<forall>child\<in>set cs. \<exists>c\<in>set cs'. getKey c = getKey child \<and> compare child c)"
    using fwd conv by (rule iffI)
  moreover have "list_all2 (\<lambda>a b. getKey a = getKey b \<and> compare a b) cs cs0 \<and> mset cs' = mset cs0
              \<longrightarrow> compare (Element k p t s cs) (Element k' p' t' s' cs')"
    using perm conv by (intro impI) (elim conjE, rule conv, rule perm)
  ultimately show ?thesis by (rule conjI)
qed

text \<open>
  C3 as stated fails when both Elements hold two children with the same key: \<open>compare\<close>
  looks at the first child of the other Element with the key only. Here every child of
  \<open>this\<close> has a child of the other Element with its key that it compares equal to (the
  second one), and \<open>compare\<close> is false.
\<close>

theorem compare_matches_by_key_counterexample:
  "Node_compare
     (Element ''e'' None ''element'' Map.empty
        [Element ''a'' (Some ''e'') ''element'' Map.empty [],
         Element ''a'' (Some ''e'') ''element'' Map.empty []])
     (Element ''f'' None ''element'' Map.empty
        [Element ''a'' (Some ''f'') ''element'' Map.empty [Text ''t'' (Some ''a'') ''x''],
         Element ''a'' (Some ''f'') ''element'' Map.empty []])
   \<and> getChildrenSize
     (Element ''e'' None ''element'' Map.empty
        [Element ''a'' (Some ''e'') ''element'' Map.empty [],
         Element ''a'' (Some ''e'') ''element'' Map.empty []])
     = getChildrenSize
     (Element ''f'' None ''element'' Map.empty
        [Element ''a'' (Some ''f'') ''element'' Map.empty [Text ''t'' (Some ''a'') ''x''],
         Element ''a'' (Some ''f'') ''element'' Map.empty []])
   \<and> \<not> (compare
     (Element ''e'' None ''element'' Map.empty
        [Element ''a'' (Some ''e'') ''element'' Map.empty [],
         Element ''a'' (Some ''e'') ''element'' Map.empty []])
     (Element ''f'' None ''element'' Map.empty
        [Element ''a'' (Some ''f'') ''element'' Map.empty [Text ''t'' (Some ''a'') ''x''],
         Element ''a'' (Some ''f'') ''element'' Map.empty []])
     \<longleftrightarrow>
       (\<forall>child\<in>set [Element ''a'' (Some ''e'') ''element'' Map.empty [],
                       Element ''a'' (Some ''e'') ''element'' Map.empty []].
          \<exists>c\<in>set [Element ''a'' (Some ''f'') ''element'' Map.empty [Text ''t'' (Some ''a'') ''x''],
                    Element ''a'' (Some ''f'') ''element'' Map.empty []].
            getKey c = getKey child \<and> compare child c))"
  by (simp add: Node_compare_def getChildrenSize_def findIndex_def)

text \<open>Two Elements with the same children in opposite orders compare equal.\<close>

theorem compare_matches_by_key_witness:
  "compare
     (Element ''e'' None ''element'' Map.empty
        [Text ''a'' (Some ''e'') ''A'', Text ''b'' (Some ''e'') ''B''])
     (Element ''f'' None ''element'' Map.empty
        [Text ''b'' (Some ''f'') ''B'', Text ''a'' (Some ''f'') ''A''])"
proof -
  let ?these = "[Text ''a'' (Some ''e'') ''A'', Text ''b'' (Some ''e'') ''B'']"
  let ?other = "[Text ''b'' (Some ''f'') ''B'', Text ''a'' (Some ''f'') ''A'']"
  let ?perm = "[Text ''a'' (Some ''f'') ''A'', Text ''b'' (Some ''f'') ''B'']"
  have h1: "Node_compare (Element ''e'' None ''element'' Map.empty ?these)
              (Element ''f'' None ''element'' Map.empty ?other)"
    by (simp add: Node_compare_def)
  have h2: "(Map.empty :: ElementStyle) = Map.empty" by simp
  have h3: "length ?these = length ?other" by simp
  have h4: "distinct (map getKey ?these) \<or> distinct (map getKey ?other)" by simp
  have p: "list_all2 (\<lambda>a b. getKey a = getKey b \<and> compare a b) ?these ?perm \<and> mset ?other = mset ?perm"
    by (simp add: Node_compare_def)
  show ?thesis
    using compare_matches_by_key [OF h1 h2 h3 h4, where ?cs0.0 = ?perm] p
    by blast
qed

subsection \<open>Round trip through serialisation\<close>

lemma Element_new_toJSON:
  "Element_new gen (NodeObject (Some k) (Some t) p' tx sz (Some (map (toJSON True) cs))) g
     = (Element k p' t Map.empty (map (\<lambda>c. fst (copyChild gen k c g)) cs), g)"
proof -
  have "createChildNodes gen k (map (toJSON True) cs) g
        = (map (\<lambda>c. fst (createChildNode gen (set_parent k c) g)) (map (toJSON True) cs), g)"
  proof (rule createChildNodes_map)
    fix c g assume "c \<in> set (map (toJSON True) cs)"
    then obtain n where "c = toJSON True n" by auto
    then show "snd (createChildNode gen (set_parent k c) g) = g"
      using copyChild_state [of gen k n g] by (simp add: copyChild_def)
  qed
  then show ?thesis
    by (simp add: copyChild_def comp_def)
qed

lemma compare_copyChild:
  "dispatched n \<Longrightarrow> distinct_child_keys n \<Longrightarrow> empty_styles n \<Longrightarrow>
   compare (fst (copyChild gen pk n g)) n"
proof (induction n arbitrary: pk g)
  case (Element k p t s cs)
  let ?F = "\<lambda>c. fst (copyChild gen k c g)"
  have copy: "fst (copyChild gen pk (Element k p t s cs) g) = Element k (Some pk) t Map.empty (map ?F cs)"
    using Element.prems(1)
    by (simp add: copyChild_def isElementObject_def Element_new_toJSON del: Element_new.simps)
  have "\<forall>child\<in>set (map ?F cs). \<exists>c\<in>set cs. getKey c = getKey child \<and> compare child c"
  proof
    fix child assume "child \<in> set (map ?F cs)"
    then obtain c where c: "c \<in> set cs" "child = ?F c" by auto
    have "compare (?F c) c"
      using Element.IH [OF c(1)] Element.prems c(1) by (simp add: list_all_iff)
    then show "\<exists>c\<in>set cs. getKey c = getKey child \<and> compare child c"
      using c by (metis copyChild_key)
  qed
  then have "compare (Element k (Some pk) t Map.empty (map ?F cs)) (Element k p t s cs)"
    using Element.prems by (intro matching_imp_compare) simp_all
  then show ?case by (simp only: copy)
next
  case (Text k p tx)
  then show ?case
    by (simp add: copyChild_def isElementObject_def Text_new_def Node_compare_def)
qed

text \<open>The constructor and \<open>createChildNode\<close> establish \<open>dispatched\<close> for the children
  they build.\<close>

lemma built_dispatched:
  "list_all dispatched (getChildren (fst (Element_new gen obj g)))"
  "dispatched (fst (createChildNode gen obj2 g2))"
  "list_all dispatched (fst (createChildNodes gen key objs g3))"
proof (induction gen obj g and gen obj2 g2 and gen key objs g3
       rule: Element_new_createChildNode_createChildNodes.induct)
  case (1 gen k t p tx sz cs g)
  then show ?case
    by (simp add: split_beta)
next
  case (2 gen k t p tx sz cs g)
  then show ?case
    by (auto simp: split_beta isElementObject_def Text_new_def DATA_TYPE_ELEMENT_def
        DATA_TYPE_TEXT_def split: option.splits)
next
  case (3 gen key g)
  then show ?case by simp
next
  case (4 gen key child rest g)
  obtain n g1 where c: "createChildNode gen (set_parent key child) g = (n, g1)"
    by (cases "createChildNode gen (set_parent key child) g")
  have "dispatched n"
    using "4.IH"(1) c by simp
  moreover have "list_all dispatched (fst (createChildNodes gen key rest g1))"
    using "4.IH"(2) [OF refl c [symmetric]] .
  ultimately show ?case
    using c by (simp add: split_beta)
qed

lemma copyChild_dispatched: "dispatched (fst (copyChild gen key c g))"
  unfolding copyChild_def by (rule built_dispatched(2))

lemma empty_neq_map_upd: "Map.empty \<noteq> m(k \<mapsto> v)"
  by (metis map_upd_nonempty)

text \<open>
  C4, amended. For every Element whose children, at all depths, have no duplicate keys
  among siblings and whose style map, like that of every Element below it, is empty,
  the Element built by the constructor from \<open>toJSON(true)\<close> compares equal to it. (The
  children are nodes as \<open>createChildNode\<close> builds them.)
\<close>

theorem roundtrip_compare_empty_styles:
  assumes "list_all dispatched cs"
    and "distinct_child_keys (Element k p t s cs)"
    and "empty_styles (Element k p t s cs)"
  shows "compare (fst (Element_new gen (toJSON True (Element k p t s cs)) g)) (Element k p t s cs)"
proof -
  let ?F = "\<lambda>c. fst (copyChild gen k c g)"
  have new: "fst (Element_new gen (toJSON True (Element k p t s cs)) g) = Element k p t Map.empty (map ?F cs)"
    by (simp add: Element_new_toJSON del: Element_new.simps)
  have "\<forall>child\<in>set (map ?F cs). \<exists>c\<in>set cs. getKey c = getKey child \<and> compare child c"
  proof
    fix child assume "child \<in> set (map ?F cs)"
    then obtain c where c: "c \<in> set cs" "child = ?F c" by auto
    have "compare (?F c) c"
      using assms c(1) by (intro compare_copyChild) (simp_all add: list_all_iff)
    then show "\<exists>c\<in>set cs. getKey c = getKey child \<and> compare child c"
      using c by (metis copyChild_key)
  qed
  then have "compare (Element k p t Map.empty (map ?F cs)) (Element k p t s cs)"
    using assms by (intro matching_imp_compare) simp_all
  then show ?thesis by (simp only: new)
qed

text \<open>An Element with a text leaf and an Element child that holds a text leaf.\<close>

theorem roundtrip_compare_empty_styles_witness:
  "list_all dispatched [Text ''a'' (Some ''e'') ''A'',
      Element ''b'' (Some ''e'') ''element'' Map.empty [Text ''c'' (Some ''b'') ''C'']]
   \<and> distinct_child_keys (Element ''e'' None ''element'' Map.empty
        [Text ''a'' (Some ''e'') ''A'',
         Element ''b'' (Some ''e'') ''element'' Map.empty [Text ''c'' (Some ''b'') ''C'']])
   \<and> empty_styles (Element ''e'' None ''element'' Map.empty
        [Text ''a'' (Some ''e'') ''A'',
         Element ''b'' (Some ''e'') ''element'' Map.empty [Text ''c'' (Some ''b'') ''C'']])
   \<and> compare
        (fst (Element_new (\<lambda>n::nat. (''fresh'', Suc n))
           (toJSON True (Element ''e'' None ''element'' Map.empty
              [Text ''a'' (Some ''e'') ''A'',
               Element ''b'' (Some ''e'') ''element'' Map.empty [Text ''c'' (Some ''b'') ''C'']])) 0))
        (Element ''e'' None ''element'' Map.empty
           [Text ''a'' (Some ''e'') ''A'',
            Element ''b'' (Some ''e'') ''element'' Map.empty [Text ''c'' (Some ''b'') ''C'']])"
proof -
  let ?these = "[Text ''a'' (Some ''e'') ''A'',
      Element ''b'' (Some ''e'') ''element'' Map.empty [Text ''c'' (Some ''b'') ''C'']]"
  have h1: "list_all dispatched ?these"
    by (simp add: DATA_TYPE_TEXT_def)
  have h2: "distinct_child_keys (Element ''e'' None ''element'' Map.empty ?these)"
    by simp
  have h3: "empty_styles (Element ''e'' None ''element'' Map.empty ?these)"
    by simp
  show ?thesis
    using h1 h2 h3 roundtrip_compare_empty_styles [OF h1 h2 h3, of "\<lambda>n::nat. (''fresh'', Suc n)" 0]
    by (intro conjI)
qed

text \<open>
  C4 as stated fails: an Element built by the constructor and given a style by
  \<open>setStyle\<close> has no children, so no duplicate keys, and the Element rebuilt from its
  \<open>toJSON(true)\<close> has the empty style and does not compare equal to it.
\<close>

theorem roundtrip_compare_counterexample:
  "distinct_child_keys
     (setStyle [''color'' \<mapsto> StyleString ''red'']
        (fst (Element_new (\<lambda>n::nat. (''fresh'', Suc n))
           (NodeObject (Some ''e'') None None None None None) 0)))
   \<and> \<not> compare
        (fst (Element_new (\<lambda>n::nat. (''fresh'', Suc n))
           (toJSON True
              (setStyle [''color'' \<mapsto> StyleString ''red'']
                 (fst (Element_new (\<lambda>n::nat. (''fresh'', Suc n))
                    (NodeObject (Some ''e'') None None None None None) 0)))) 0))
        (setStyle [''color'' \<mapsto> StyleString ''red'']
           (fst (Element_new (\<lambda>n::nat. (''fresh'', Suc n))
              (NodeObject (Some ''e'') None None None None None) 0)))"
  by (simp add: Node_compare_def empty_neq_map_upd)

end
